theory Spec2Isabelle
  imports Complex_Main "HOL-Library.Multiset" "HOL-Library.AList"
begin

section \<open>Values, records and errors of the notebooks\<close>

text \<open>
  The two notebooks (\<^verbatim>\<open>tutorial/zika_plasmablasts.ipynb\<close> and the ab[x] toolkit tutorial)
  define three pieces of code of their own: \<^verbatim>\<open>get_nt_mutations\<close>,
  \<^verbatim>\<open>mutation_bubbleplot\<close> and the loop that truncates sequence names. Everything else is a
  call into the abutils/abstar packages. A Python exception is a value of \<open>error\<close>; a
  computation that may raise returns \<open>error + 'a\<close>, with \<open>Inl\<close> for the exception.
\<close>

datatype error = KeyError | TypeError | ValueError | IndexError

text \<open>
  An annotation value is a number, a string or a nested dictionary
  (\<^verbatim>\<open>s.heavy['var_muts_nt']['num']\<close>, \<^verbatim>\<open>p.heavy['nt_identity']['v']\<close>). Percentages
  are real numbers here: rounding and NaN of Python floats are not modelled.
\<close>

datatype anno = Num real | Str string | Dict "(string \<times> anno) list"

text \<open>\<^verbatim>\<open>a[k]\<close> on an annotation value: a dictionary raises KeyError on a missing key, a
  number or a string cannot be subscripted with a string (TypeError).\<close>

fun subscript :: "anno \<Rightarrow> string \<Rightarrow> error + anno" where
  "subscript (Dict kvs) k = (case map_of kvs k of None \<Rightarrow> Inl KeyError | Some v \<Rightarrow> Inr v)"
| "subscript (Num r) k = Inl TypeError"
| "subscript (Str s) k = Inl TypeError"

record Sequence =
  id_seq :: string
  sequence :: string
  annotations :: "(string \<times> anno) list"

text \<open>
  Modelled from the spec: \<^verbatim>\<open>Sequence.__getitem__\<close> and \<^verbatim>\<open>Sequence.__setitem__\<close> (class
  Sequence of abutils is not among the sources). The spec's data model gives a record
  "a mapping of named annotation fields", read by "dictionary-style lookup"; a lookup of a
  field the mapping does not have fails, a store adds or replaces one field. (Were such a
  lookup to give None instead, the subscript that follows it in the notebooks would raise
  TypeError; the statements below use only that the access fails, not which exception.)
\<close>

definition Sequence_getitem :: "Sequence \<Rightarrow> string \<Rightarrow> error + anno" where
  "Sequence_getitem s k =
     (case map_of (annotations s) k of None \<Rightarrow> Inl KeyError | Some v \<Rightarrow> Inr v)"

definition Sequence_setitem :: "Sequence \<Rightarrow> string \<Rightarrow> anno \<Rightarrow> Sequence" where
  "Sequence_setitem s k v = s\<lparr>annotations := AList.update k v (annotations s)\<rparr>"

text \<open>
  A Pair as the notebooks read it: \<^verbatim>\<open>p.heavy\<close> and \<^verbatim>\<open>p.light\<close> are a Sequence or
  None, \<^verbatim>\<open>p.subject\<close> is the donor's name, \<^verbatim>\<open>p.is_pair\<close> is a property computed by
  abutils which the notebooks only read, so it is a field here.
\<close>

record Pair =
  heavy :: "Sequence option"
  light :: "Sequence option"
  subject :: string
  is_pair :: bool

text \<open>A list comprehension whose element expression may raise: the first exception ends it.\<close>

fun comprehension :: "('a \<Rightarrow> error + 'b) \<Rightarrow> 'a list \<Rightarrow> error + 'b list" where
  "comprehension f [] = Inr []"
| "comprehension f (x # xs) =
     (case f x of
        Inl e \<Rightarrow> Inl e
      | Inr y \<Rightarrow> (case comprehension f xs of Inl e \<Rightarrow> Inl e | Inr ys \<Rightarrow> Inr (y # ys)))"

section \<open>Donors and colors\<close>

definition donors :: "string list" where
  "donors = [''donor_1'', ''donor_2'', ''donor_3'', ''donor_4'']"

definition colors :: "string list" where
  "colors = [''#004E64'', ''#5FAD56'', ''#3AAED8'', ''#F78154'']"

definition color_dict :: "string \<Rightarrow> string option" where
  "color_dict = map_of (zip donors colors)"

definition color_dict_getitem :: "string \<Rightarrow> error + string" where
  "color_dict_getitem k = (case color_dict k of None \<Rightarrow> Inl KeyError | Some c \<Rightarrow> Inr c)"

text \<open>\<^verbatim>\<open>s.replace(old, new)\<close>: every occurrence of \<open>old\<close>, left to right and without overlap;
  an empty \<open>old\<close> matches before every character and at the end.\<close>

function str_replace :: "string \<Rightarrow> string \<Rightarrow> string \<Rightarrow> string" where
  "str_replace old new [] = (if old = [] then new else [])"
| "str_replace old new (c # cs) =
     (if old = [] then new @ c # str_replace old new cs
      else if take (length old) (c # cs) = old
           then new @ str_replace old new (drop (length old) (c # cs))
           else c # str_replace old new cs)"
  by pat_completeness auto
termination
  by (relation "measure (\<lambda>(old, new, s). length s)") (auto simp: neq_Nil_conv)

section \<open>Nucleotide mutation frequencies\<close>

text \<open>
  \<^verbatim>\<open>
  def get_nt_mutations(pairs, chain, just_pairs=True):
      if just_pairs:
          pairs = [p for p in pairs if p.is_pair]
      if chain == 'heavy':
          heavies = [p for p in pairs if p.heavy is not None]
          muts = [{'muts': s.heavy['var_muts_nt']['num'],
                   'donor': s.subject.replace('donor_', ''),
                   'color': color_dict[s.subject]} for s in heavies]
      else:
          lights = [p for p in pairs if p is not None]
          muts = [{'muts': s.light['var_muts_nt']['num'],
                   'donor': s.subject.replace('donor_', ''),
                   'color': color_dict[s.subject]} for s in lights]
      return pd.DataFrame(muts)
  \<close>
  The data frame is the list of its rows. \<open>mut_row\<close> is the dictionary display of the two
  comprehensions, its three values evaluated in the order written; \<open>chain_of\<close> is
  \<^verbatim>\<open>s.heavy\<close> or \<^verbatim>\<open>s.light\<close>, and subscripting None raises TypeError.
\<close>

record row =
  muts :: anno
  donor :: string
  color :: string

definition mut_row :: "(Pair \<Rightarrow> Sequence option) \<Rightarrow> Pair \<Rightarrow> error + row" where
  "mut_row chain_of s =
     (case (case chain_of s of
              None \<Rightarrow> Inl TypeError
            | Some q \<Rightarrow> Sequence_getitem q ''var_muts_nt'') of
        Inl e \<Rightarrow> Inl e
      | Inr a \<Rightarrow>
          (case subscript a ''num'' of
             Inl e \<Rightarrow> Inl e
           | Inr m \<Rightarrow>
               (case color_dict_getitem (subject s) of
                  Inl e \<Rightarrow> Inl e
                | Inr c \<Rightarrow>
                    Inr \<lparr>muts = m,
                         donor = str_replace ''donor_'' [] (subject s),
                         color = c\<rparr>)))"

text \<open>In the light branch the filter tests the Pair itself (\<^verbatim>\<open>p is not None\<close>), which holds
  of every Pair of the list.\<close>

definition get_nt_mutations :: "Pair list \<Rightarrow> string \<Rightarrow> bool \<Rightarrow> error + row list" where
  "get_nt_mutations pairs chain just_pairs =
     (let pairs = (if just_pairs then filter is_pair pairs else pairs)
      in if chain = ''heavy''
         then (let heavies = filter (\<lambda>p. heavy p \<noteq> None) pairs
               in comprehension (mut_row heavy) heavies)
         else (let lights = filter (\<lambda>p. True) pairs
               in comprehension (mut_row light) lights))"

section \<open>Mutation bubbleplots\<close>

text \<open>
  \<^verbatim>\<open>
  def mutation_bubbleplot(lineages, figfile=None):
      xs = []; ys = []; cs = []; areas = []
      for l in lineages:
          if len(l.heavies) == 1:
              continue
          xs.append(min([100. - p.heavy['nt_identity']['v'] for p in l.heavies]))
          ys.append(max([100. - p.heavy['nt_identity']['v'] for p in l.heavies]))
          cs.append(color_dict[l.heavies[0].subject])
          areas.append(45 * len(l.heavies))
      ...
  \<close>
  A Lineage is read through \<^verbatim>\<open>l.heavies\<close> only, its list of Pairs with a heavy chain. The
  function's value here is the four lists it hands to the plotting calls.
\<close>

record Lineage =
  heavies :: "Pair list"

definition nt_divergence :: "Pair \<Rightarrow> error + real" where
  "nt_divergence p =
     (case heavy p of
        None \<Rightarrow> Inl TypeError
      | Some s \<Rightarrow>
          (case Sequence_getitem s ''nt_identity'' of
             Inl e \<Rightarrow> Inl e
           | Inr a \<Rightarrow>
               (case subscript a ''v'' of
                  Inl e \<Rightarrow> Inl e
                | Inr (Num r) \<Rightarrow> Inr (100 - r)
                | Inr (Str t) \<Rightarrow> Inl TypeError
                | Inr (Dict d) \<Rightarrow> Inl TypeError)))"

text \<open>\<^verbatim>\<open>min\<close> and \<open>max\<close> of a list: ValueError on the empty list, otherwise a scan that keeps
  the first smallest (largest) element.\<close>

definition py_min :: "real list \<Rightarrow> error + real" where
  "py_min ds =
     (case ds of
        [] \<Rightarrow> Inl ValueError
      | d # rest \<Rightarrow> Inr (foldl (\<lambda>m y. if y < m then y else m) d rest))"

definition py_max :: "real list \<Rightarrow> error + real" where
  "py_max ds =
     (case ds of
        [] \<Rightarrow> Inl ValueError
      | d # rest \<Rightarrow> Inr (foldl (\<lambda>m y. if m < y then y else m) d rest))"

definition first_subject_color :: "Pair list \<Rightarrow> error + string" where
  "first_subject_color ps =
     (case ps of [] \<Rightarrow> Inl IndexError | p # rest \<Rightarrow> color_dict_getitem (subject p))"

type_synonym bubbles = "real list \<times> real list \<times> string list \<times> nat list"

fun bubble_loop :: "Lineage list \<Rightarrow> bubbles \<Rightarrow> error + bubbles" where
  "bubble_loop [] acc = Inr acc"
| "bubble_loop (l # ls) (xs, ys, cs, areas) =
     (if length (heavies l) = 1 then bubble_loop ls (xs, ys, cs, areas)
      else
        (case comprehension nt_divergence (heavies l) of
           Inl e \<Rightarrow> Inl e
         | Inr ds \<Rightarrow>
        (case py_min ds of
           Inl e \<Rightarrow> Inl e
         | Inr x \<Rightarrow>
        (case comprehension nt_divergence (heavies l) of
           Inl e \<Rightarrow> Inl e
         | Inr ds' \<Rightarrow>
        (case py_max ds' of
           Inl e \<Rightarrow> Inl e
         | Inr y \<Rightarrow>
        (case first_subject_color (heavies l) of
           Inl e \<Rightarrow> Inl e
         | Inr c \<Rightarrow>
             bubble_loop ls
               (xs @ [x], ys @ [y], cs @ [c], areas @ [45 * length (heavies l)])))))))"

definition mutation_bubbleplot :: "Lineage list \<Rightarrow> error + bubbles" where
  "mutation_bubbleplot lineages = bubble_loop lineages ([], [], [], [])"

section \<open>Truncating sequence names\<close>

text \<open>
  \<^verbatim>\<open>
  for s in pct64_seqs:
      s.id = s.id.split('_')[0]
      s['seq_id'] = s.id
  \<close>
  \<open>str_split\<close> is \<^verbatim>\<open>str.split\<close> with a separator of one character; its result is never
  empty, so \<^verbatim>\<open>[0]\<close> is its head. The Sequence objects of \<^verbatim>\<open>pct64_seqs\<close> are the very
  objects of the list they were selected from: the loaded records are a store, a list of
  Sequences, and \<^verbatim>\<open>pct64_seqs\<close> is a list of references (positions) into it.
\<close>

fun str_split :: "char \<Rightarrow> string \<Rightarrow> string list" where
  "str_split c [] = [[]]"
| "str_split c (x # xs) =
     (if x = c then [] # str_split c xs
      else (case str_split c xs of [] \<Rightarrow> [[x]] | f # fs \<Rightarrow> (x # f) # fs))"

definition truncate_name :: "Sequence \<Rightarrow> Sequence" where
  "truncate_name s =
     (let s = s\<lparr>id_seq := hd (str_split CHR ''_'' (id_seq s))\<rparr>
      in Sequence_setitem s ''seq_id'' (Str (id_seq s)))"

fun truncate_names :: "nat list \<Rightarrow> Sequence list \<Rightarrow> Sequence list" where
  "truncate_names [] store = store"
| "truncate_names (r # refs) store =
     truncate_names refs (store[r := truncate_name (store ! r)])"


section \<open>The Pair Assigner\<close>

text \<open>
  \<^verbatim>\<open>pairs = assign_pairs(json_seqs, delim='_')\<close> is a call into abutils; the function and the
  classes it builds are not among the sources. The definitions of this section and of the
  next follow the words of the specification (its sections 3, 4.1 and 4.3).
\<close>

datatype chain_designation = Heavy | Light | Unknown









section \<open>The Cluster Engine\<close>

text \<open>
  \<^verbatim>\<open>clusters = cluster(json_seqs, threshold=0.92, quiet=True)\<close> and
  \<^verbatim>\<open>clusters.largest_cluster\<close> are calls into abutils, which runs CD-HIT. The similarity of
  two records and the key of the initial sort are parameters, as the specification leaves
  them to the implementer; a similarity is a real number.
\<close>

text \<open>Modelled from the spec: the Cluster of the data model (missing: class Cluster of
  abutils): its members, with "a designation of the centroid/reference sequence".\<close>

record 'a Cluster =
  centroid :: 'a
  cluster_members :: "'a list"

text \<open>Modelled from the spec: the size of a Cluster (missing: class Cluster of abutils).\<close>

definition cluster_size :: "'a Cluster \<Rightarrow> nat" where
  "cluster_size c = length (cluster_members c)"

text \<open>Modelled from the spec: the greedy scan (missing: \<^verbatim>\<open>cluster\<close> of abutils and the
  tool it runs), "for each unclustered record, open a new cluster with it as centroid,
  then assign all subsequent unclustered records whose pairwise identity to the centroid
  exceeds the threshold into that cluster".\<close>

function greedy_clusters :: "('a \<Rightarrow> 'a \<Rightarrow> real) \<Rightarrow> real \<Rightarrow> 'a list \<Rightarrow> 'a Cluster list" where
  "greedy_clusters sim t [] = []"
| "greedy_clusters sim t (c # rest) =
     \<lparr>centroid = c, cluster_members = c # filter (\<lambda>r. t < sim c r) rest\<rparr>
       # greedy_clusters sim t (filter (\<lambda>r. \<not> t < sim c r) rest)"
  by pat_completeness auto
termination
  by (relation "measure (\<lambda>(sim, t, xs). length xs)") (auto simp: less_Suc_eq_le)

text \<open>Modelled from the spec: \<^verbatim>\<open>cluster\<close> (missing: the function of abutils), "sort records
  by a stable key", then the greedy scan.\<close>

definition cluster ::
  "'a list \<Rightarrow> real \<Rightarrow> ('a \<Rightarrow> 'k::linorder) \<Rightarrow> ('a \<Rightarrow> 'a \<Rightarrow> real) \<Rightarrow> 'a Cluster list" where
  "cluster seqs threshold sort_by similarity =
     greedy_clusters similarity threshold (sort_key sort_by seqs)"

text \<open>Modelled from the spec: the scan behind \<^verbatim>\<open>largest_cluster\<close> (missing: the property of
  the cluster collection of abutils): a later cluster replaces the best one so far only
  when it is strictly larger, "ties broken by first-encountered order".\<close>

fun largest_from :: "'a Cluster \<Rightarrow> 'a Cluster list \<Rightarrow> 'a Cluster" where
  "largest_from best [] = best"
| "largest_from best (c # cs) =
     largest_from (if cluster_size best < cluster_size c then c else best) cs"

text \<open>Modelled from the spec: \<^verbatim>\<open>largest_cluster\<close> (missing: the property of the cluster
  collection of abutils), "the cluster with maximum size"; an empty collection has none.\<close>

definition largest_cluster :: "'a Cluster list \<Rightarrow> 'a Cluster option" where
  "largest_cluster cs = (case cs of [] \<Rightarrow> None | c # rest \<Rightarrow> Some (largest_from c rest))"


section \<open>Vocabulary of the statements and example data\<close>

text \<open>The lineages that reach the plot, and what one of them contributes.\<close>

definition plotted :: "Lineage list \<Rightarrow> Lineage list" where
  "plotted ls = filter (\<lambda>l. length (heavies l) \<noteq> 1) ls"

definition bubble_of :: "Lineage \<Rightarrow> real \<times> real \<times> string \<times> nat \<Rightarrow> bool" where
  "bubble_of l b =
     (case b of (x, y, c, a) \<Rightarrow>
        1 < length (heavies l) \<and>
        (case comprehension nt_divergence (heavies l) of
           Inl e \<Rightarrow> False
         | Inr ds \<Rightarrow> x = Min (set ds) \<and> y = Max (set ds)) \<and>
        first_subject_color (heavies l) = Inr c \<and>
        a = 45 * length (heavies l))"

definition ex_seq :: "string \<Rightarrow> real \<Rightarrow> real \<Rightarrow> Sequence" where
  "ex_seq name v n =
     \<lparr>id_seq = name, sequence = ''CAGGTG'',
      annotations = [(''nt_identity'', Dict [(''v'', Num v)]),
                     (''var_muts_nt'', Dict [(''num'', Num n)])]\<rparr>"

definition ex_pair :: "string \<Rightarrow> string \<Rightarrow> real \<Rightarrow> real \<Rightarrow> Pair" where
  "ex_pair name d v n =
     \<lparr>heavy = Some (ex_seq name v n), light = Some (ex_seq name 99 2),
      subject = d, is_pair = True\<rparr>"

definition ex_heavy_only :: Pair where
  "ex_heavy_only =
     \<lparr>heavy = Some (ex_seq ''u1'' 94 18), light = None, subject = ''donor_2'', is_pair = False\<rparr>"

definition ex_light_only :: Pair where
  "ex_light_only =
     \<lparr>heavy = None, light = Some (ex_seq ''k1'' 98 4), subject = ''donor_4'', is_pair = False\<rparr>"

text \<open>A pair of records read from a FASTA file: no annotation at all.\<close>

definition ex_fasta_seq :: Sequence where
  "ex_fasta_seq = \<lparr>id_seq = ''f1'', sequence = ''CAGGTG'', annotations = []\<rparr>"

definition ex_unannotated :: Pair where
  "ex_unannotated =
     \<lparr>heavy = Some ex_fasta_seq, light = Some ex_fasta_seq,
      subject = ''donor_1'', is_pair = True\<rparr>"

definition ex_lineages :: "Lineage list" where
  "ex_lineages =
     [\<lparr>heavies = [ex_pair ''a1'' ''donor_1'' 97 9, ex_pair ''a2'' ''donor_1'' 92.5 22]\<rparr>,
      \<lparr>heavies = [ex_pair ''b1'' ''donor_2'' 96 12]\<rparr>,
      \<lparr>heavies = [ex_pair ''c1'' ''donor_3'' 99 3, ex_pair ''c2'' ''donor_3'' 90 30,
                  ex_pair ''c3'' ''donor_3'' 95 15]\<rparr>]"

definition ex_store :: "Sequence list" where
  "ex_store =
     [\<lparr>id_seq = ''PCT64-18B_heavy_1'', sequence = ''CAGGTGCAG'',
       annotations = [(''seq_id'', Str ''PCT64-18B_heavy_1''), (''chain'', Str ''heavy'')]\<rparr>,
      \<lparr>id_seq = ''VRC01_heavy'', sequence = ''CAGGTGCAGCTG'',
       annotations = [(''seq_id'', Str ''VRC01_heavy''), (''chain'', Str ''heavy'')]\<rparr>,
      \<lparr>id_seq = ''PCT64-35S'', sequence = ''GAGGTGCAG'',
       annotations = [(''chain'', Str ''heavy'')]\<rparr>]"



text \<open>A similarity for the examples: the share of positions at which two strings agree.\<close>

definition positional_identity :: "string \<Rightarrow> string \<Rightarrow> real" where
  "positional_identity a b =
     real (length (filter (\<lambda>(x, y). x = y) (zip a b))) / real (max (length a) (length b))"

definition ex_reads :: "string list" where
  "ex_reads = [''GACATCCAGA'', ''CAGGTGCAGCTG'', ''GACATCCAGT'', ''CAGGTGCAGCTC'']"

lemmas ex_defs = ex_seq_def ex_pair_def ex_heavy_only_def ex_light_only_def ex_fasta_seq_def
  ex_unannotated_def get_nt_mutations_def mut_row_def Sequence_getitem_def
  color_dict_getitem_def color_dict_def donors_def colors_def


section \<open>Comprehensions, minimum and maximum\<close>

lemma comprehension_Inr_map:
  "comprehension f xs = Inr ys \<Longrightarrow> map f xs = map Inr ys"
  by (induction xs arbitrary: ys) (auto split: sum.splits)

lemma comprehension_fails:
  "x \<in> set xs \<Longrightarrow> isl (f x) \<Longrightarrow> isl (comprehension f xs)"
  by (induction xs) (auto split: sum.splits)

lemma comprehension_returns:
  "(\<forall>x\<in>set xs. \<not> isl (f x)) \<Longrightarrow> \<exists>ys. comprehension f xs = Inr ys"
  by (induction xs) (auto split: sum.splits)

lemma comprehension_length:
  "comprehension f xs = Inr ys \<Longrightarrow> length ys = length xs"
  by (induction xs arbitrary: ys) (auto split: sum.splits)

lemma foldl_min_Min:
  "foldl (\<lambda>m y. if y < m then y else m) d rest = Min (insert d (set rest))" for d :: real
proof (induction rest arbitrary: d)
  case Nil
  then show ?case by simp
next
  case (Cons a rest)
  have "Min (insert (if a < d then a else d) (set rest)) = Min (insert d (insert a (set rest)))"
    by (cases "rest = []") (auto simp: min_def)
  then show ?case by (simp add: Cons.IH)
qed

lemma foldl_max_Max:
  "foldl (\<lambda>m y. if m < y then y else m) d rest = Max (insert d (set rest))" for d :: real
proof (induction rest arbitrary: d)
  case Nil
  then show ?case by simp
next
  case (Cons a rest)
  have "Max (insert (if d < a then a else d) (set rest)) = Max (insert d (insert a (set rest)))"
    by (cases "rest = []") (auto simp: max_def)
  then show ?case by (simp add: Cons.IH)
qed

lemma py_min_Inr: "py_min ds = Inr x \<longleftrightarrow> ds \<noteq> [] \<and> x = Min (set ds)"
  by (cases ds) (auto simp: py_min_def foldl_min_Min)

lemma py_max_Inr: "py_max ds = Inr x \<longleftrightarrow> ds \<noteq> [] \<and> x = Max (set ds)"
  by (cases ds) (auto simp: py_max_def foldl_max_Max)

section \<open>The mutation aggregation\<close>

lemma get_nt_mutations_comprehension:
  "get_nt_mutations ps chain jp =
   comprehension (mut_row (if chain = ''heavy'' then heavy else light))
     (filter (\<lambda>p. (jp \<longrightarrow> is_pair p) \<and> (chain = ''heavy'' \<longrightarrow> heavy p \<noteq> None)) ps)"
  by (simp add: get_nt_mutations_def conj_commute)

text \<open>
  C1, as the specification states it: a Pair missing the designated chain or the field is
  excluded from the aggregation without a fatal error, and a field missing on all records
  gives an empty projected sequence. The code has no test for the field: on one true pair
  whose records carry no annotation the heavy-chain aggregation raises.
\<close>

theorem missing_field_counterexample:
  "isl (get_nt_mutations [ex_unannotated] ''heavy'' True) \<and>
   get_nt_mutations [ex_unannotated] ''heavy'' True \<noteq> Inr []"
  by (simp add: ex_defs)

text \<open>
  C1, amended: the heavy-chain aggregation leaves out, without an error, every Pair whose
  heavy chain is absent. The field is not tested for: if a Pair that passes the filters
  has a designated record without \<^verbatim>\<open>var_muts_nt\<close>, the call raises; if every Pair that passes
  the filters yields its row, the call returns exactly those rows, one per such Pair, in
  the order of the input. (What the light-chain aggregation does with a Pair whose light
  chain is absent is left out of the statement.)
\<close>

theorem get_nt_mutations_no_field_check:
  "get_nt_mutations ps ''heavy'' jp =
     get_nt_mutations (filter (\<lambda>p. heavy p \<noteq> None) ps) ''heavy'' jp \<and>
   (p \<in> set ps \<and> (jp \<longrightarrow> is_pair p) \<and>
    (if chain = ''heavy'' then heavy p else light p) = Some s \<and>
    map_of (annotations s) ''var_muts_nt'' = None \<longrightarrow>
      isl (get_nt_mutations ps chain jp)) \<and>
   ((\<forall>p\<in>set ps. (jp \<longrightarrow> is_pair p) \<and> (chain = ''heavy'' \<longrightarrow> heavy p \<noteq> None) \<longrightarrow>
        \<not> isl (mut_row (if chain = ''heavy'' then heavy else light) p)) \<longrightarrow>
      (\<exists>rows. get_nt_mutations ps chain jp = Inr rows \<and>
         map Inr rows = map (mut_row (if chain = ''heavy'' then heavy else light))
           (filter (\<lambda>p. (jp \<longrightarrow> is_pair p) \<and> (chain = ''heavy'' \<longrightarrow> heavy p \<noteq> None)) ps)))"
proof (intro conjI impI)
  show "get_nt_mutations ps ''heavy'' jp =
     get_nt_mutations (filter (\<lambda>p. heavy p \<noteq> None) ps) ''heavy'' jp"
    by (simp add: get_nt_mutations_def conj_commute)
next
  assume a: "p \<in> set ps \<and> (jp \<longrightarrow> is_pair p) \<and>
    (if chain = ''heavy'' then heavy p else light p) = Some s \<and>
    map_of (annotations s) ''var_muts_nt'' = None"
  let ?f = "mut_row (if chain = ''heavy'' then heavy else light)"
  let ?sel = "filter (\<lambda>p. (jp \<longrightarrow> is_pair p) \<and> (chain = ''heavy'' \<longrightarrow> heavy p \<noteq> None)) ps"
  from a have "p \<in> set ?sel" by auto
  moreover from a have "isl (?f p)"
    by (auto simp: mut_row_def Sequence_getitem_def split: if_splits)
  ultimately have "isl (comprehension ?f ?sel)" by (rule comprehension_fails)
  then show "isl (get_nt_mutations ps chain jp)"
    by (simp only: get_nt_mutations_comprehension)
next
  let ?f = "mut_row (if chain = ''heavy'' then heavy else light)"
  let ?sel = "filter (\<lambda>p. (jp \<longrightarrow> is_pair p) \<and> (chain = ''heavy'' \<longrightarrow> heavy p \<noteq> None)) ps"
  assume "\<forall>p\<in>set ps. (jp \<longrightarrow> is_pair p) \<and> (chain = ''heavy'' \<longrightarrow> heavy p \<noteq> None) \<longrightarrow>
        \<not> isl (?f p)"
  then have "\<forall>p\<in>set ?sel. \<not> isl (?f p)" by simp
  from comprehension_returns [OF this] obtain rows where
    rows: "comprehension ?f ?sel = Inr rows" by blast
  then have "map Inr rows = map ?f ?sel" by (simp add: comprehension_Inr_map)
  with rows show "\<exists>rows. get_nt_mutations ps chain jp = Inr rows \<and> map Inr rows = map ?f ?sel"
    by (simp only: get_nt_mutations_comprehension) blast
qed

text \<open>
  The amended statement at concrete inputs: a Pair without a heavy chain next to an
  annotated true pair is left out and one row is returned; an unannotated true pair next
  to the same annotated pair makes the call raise.
\<close>

theorem get_nt_mutations_no_field_check_witness:
  "get_nt_mutations [ex_pair ''a1'' ''donor_1'' 97 9, ex_light_only] ''heavy'' False =
     get_nt_mutations [ex_pair ''a1'' ''donor_1'' 97 9] ''heavy'' False \<and>
   get_nt_mutations [ex_pair ''a1'' ''donor_1'' 97 9, ex_light_only] ''heavy'' False =
     Inr [\<lparr>muts = Num 9, donor = ''1'', color = ''#004E64''\<rparr>] \<and>
   ex_unannotated \<in> set [ex_pair ''a1'' ''donor_1'' 97 9, ex_unannotated] \<and>
   is_pair ex_unannotated \<and> heavy ex_unannotated = Some ex_fasta_seq \<and>
   map_of (annotations ex_fasta_seq) ''var_muts_nt'' = None \<and>
   isl (get_nt_mutations [ex_pair ''a1'' ''donor_1'' 97 9, ex_unannotated] ''heavy'' True)"
proof -
  let ?a = "ex_pair ''a1'' ''donor_1'' 97 9"
  have row: "mut_row heavy ?a = Inr \<lparr>muts = Num 9, donor = ''1'', color = ''#004E64''\<rparr>"
    by (simp add: ex_defs)
  have sel: "filter (\<lambda>p. (False \<longrightarrow> is_pair p) \<and> (''heavy'' = ''heavy'' \<longrightarrow> heavy p \<noteq> None))
      [?a, ex_light_only] = [?a]"
    by (simp add: ex_defs)
  have ok: "\<forall>p\<in>set [?a, ex_light_only].
      (False \<longrightarrow> is_pair p) \<and> (''heavy'' = ''heavy'' \<longrightarrow> heavy p \<noteq> None) \<longrightarrow>
      \<not> isl (mut_row (if ''heavy'' = ''heavy'' then heavy else light) p)"
    using row by (simp add: ex_light_only_def)
  have bad: "ex_unannotated \<in> set [?a, ex_unannotated] \<and> (True \<longrightarrow> is_pair ex_unannotated) \<and>
      (if ''heavy'' = ''heavy'' then heavy ex_unannotated else light ex_unannotated) =
        Some ex_fasta_seq \<and>
      map_of (annotations ex_fasta_seq) ''var_muts_nt'' = None"
    by (simp add: ex_unannotated_def ex_fasta_seq_def)
  note good = get_nt_mutations_no_field_check
    [of "[?a, ex_light_only]" False ex_light_only "''heavy''" ex_fasta_seq]
  note fails = get_nt_mutations_no_field_check
    [of "[?a, ex_unannotated]" True ex_unannotated "''heavy''" ex_fasta_seq]
  from good ok sel row have
    "get_nt_mutations [?a, ex_light_only] ''heavy'' False =
       Inr [\<lparr>muts = Num 9, donor = ''1'', color = ''#004E64''\<rparr>]"
    by auto
  moreover from good have "get_nt_mutations [?a, ex_light_only] ''heavy'' False =
      get_nt_mutations [?a] ''heavy'' False"
    by (simp add: ex_defs)
  moreover from fails bad have "isl (get_nt_mutations [?a, ex_unannotated] ''heavy'' True)"
    by blast
  ultimately show ?thesis using bad by simp
qed

text \<open>
  The light branch filters on the Pair, not on its light chain, where the heavy branch
  filters on \<^verbatim>\<open>p.heavy\<close>: without the restriction to true pairs, a Pair with no light
  chain reaches \<^verbatim>\<open>s.light['var_muts_nt']\<close> and the call raises TypeError.
\<close>

lemma light_filter_keeps_absent_light:
  "get_nt_mutations [ex_heavy_only] ''light'' False = Inl TypeError"
  by (simp add: ex_defs)

text \<open>
  C10: with \<^verbatim>\<open>just_pairs=True\<close>, the default, the aggregation works on the true pairs of
  its input only, for the heavy and for the light projection alike: its result is the
  result of the unrestricted aggregation on the true pairs, a Pair that is not a true pair
  can be taken out of (or put into) the input without changing the result, whatever it
  carries, and every row of the output is the row of a true pair of the input.
\<close>

theorem just_pairs_excludes_unpaired:
  "get_nt_mutations ps chain True = get_nt_mutations (filter is_pair ps) chain False \<and>
   (\<not> is_pair p \<longrightarrow>
      get_nt_mutations (ps @ p # qs) chain True = get_nt_mutations (ps @ qs) chain True) \<and>
   (get_nt_mutations ps chain True = Inr rows \<longrightarrow>
      (\<exists>sel. set sel \<subseteq> {p \<in> set ps. is_pair p} \<and>
         map Inr rows = map (mut_row (if chain = ''heavy'' then heavy else light)) sel))"
proof (intro conjI impI)
  show "get_nt_mutations ps chain True = get_nt_mutations (filter is_pair ps) chain False"
    by (simp add: get_nt_mutations_def)
  show "get_nt_mutations (ps @ p # qs) chain True = get_nt_mutations (ps @ qs) chain True"
    if "\<not> is_pair p"
    using that by (simp add: get_nt_mutations_def)
  show "\<exists>sel. set sel \<subseteq> {p \<in> set ps. is_pair p} \<and>
         map Inr rows = map (mut_row (if chain = ''heavy'' then heavy else light)) sel"
    if "get_nt_mutations ps chain True = Inr rows"
  proof -
    let ?sel = "filter (\<lambda>p. (True \<longrightarrow> is_pair p) \<and> (chain = ''heavy'' \<longrightarrow> heavy p \<noteq> None)) ps"
    from that have "comprehension (mut_row (if chain = ''heavy'' then heavy else light)) ?sel
        = Inr rows"
      by (simp only: get_nt_mutations_comprehension)
    then have "map Inr rows = map (mut_row (if chain = ''heavy'' then heavy else light)) ?sel"
      by (simp add: comprehension_Inr_map)
    moreover have "set ?sel \<subseteq> {p \<in> set ps. is_pair p}" by auto
    ultimately show ?thesis by blast
  qed
qed

text \<open>
  An unpaired record that carries the mutation field: aggregated on its own without the
  restriction it gives a row, and under the default it leaves the result unchanged.
\<close>

theorem just_pairs_excludes_unpaired_witness:
  "\<not> is_pair ex_heavy_only \<and>
   get_nt_mutations [ex_heavy_only] ''heavy'' False =
     Inr [\<lparr>muts = Num 18, donor = ''2'', color = ''#5FAD56''\<rparr>] \<and>
   get_nt_mutations ([ex_pair ''a1'' ''donor_1'' 97 9] @ ex_heavy_only # []) ''heavy'' True =
     get_nt_mutations ([ex_pair ''a1'' ''donor_1'' 97 9] @ []) ''heavy'' True \<and>
   get_nt_mutations ([ex_pair ''a1'' ''donor_1'' 97 9] @ ex_heavy_only # []) ''heavy'' True =
     Inr [\<lparr>muts = Num 9, donor = ''1'', color = ''#004E64''\<rparr>]"
proof -
  have h: "\<not> is_pair ex_heavy_only" by (simp add: ex_heavy_only_def)
  have "get_nt_mutations [ex_heavy_only] ''heavy'' False =
     Inr [\<lparr>muts = Num 18, donor = ''2'', color = ''#5FAD56''\<rparr>]"
    by (simp add: ex_defs)
  moreover have "get_nt_mutations ([ex_pair ''a1'' ''donor_1'' 97 9] @ []) ''heavy'' True =
     Inr [\<lparr>muts = Num 9, donor = ''1'', color = ''#004E64''\<rparr>]"
    by (simp add: ex_defs)
  ultimately show ?thesis
    using h just_pairs_excludes_unpaired
      [of "[ex_pair ''a1'' ''donor_1'' 97 9]" "''heavy''" ex_heavy_only "[]"]
    by simp
qed


section \<open>The bubbleplot aggregation\<close>

lemma bubble_loop_fails:
  "l \<in> set ls \<Longrightarrow> heavies l = [] \<Longrightarrow> isl (bubble_loop ls acc)"
proof (induction ls arbitrary: acc)
  case Nil
  then show ?case by simp
next
  case (Cons a ls)
  obtain xs ys cs areas where acc: "acc = (xs, ys, cs, areas)"
    by (cases acc) auto
  show ?case
  proof (cases "a = l")
    case True
    with Cons.prems show ?thesis by (simp add: acc py_min_def)
  next
    case False
    with Cons.prems have "l \<in> set ls" by simp
    then have "\<And>acc'. isl (bubble_loop ls acc')"
      using Cons.IH Cons.prems(2) by blast
    then show ?thesis by (simp add: acc split: sum.splits)
  qed
qed

lemma bubble_loop_out:
  "bubble_loop ls (xs0, ys0, cs0, as0) = Inr out \<Longrightarrow>
   \<exists>pts. list_all2 bubble_of (plotted ls) pts \<and>
     out = (xs0 @ map fst pts, ys0 @ map (fst \<circ> snd) pts,
            cs0 @ map (fst \<circ> snd \<circ> snd) pts, as0 @ map (snd \<circ> snd \<circ> snd) pts)"
proof (induction ls arbitrary: xs0 ys0 cs0 as0)
  case Nil
  then show ?case by (simp add: plotted_def)
next
  case (Cons l ls)
  show ?case
  proof (cases "length (heavies l) = 1")
    case True
    with Cons.prems have "bubble_loop ls (xs0, ys0, cs0, as0) = Inr out" by simp
    from Cons.IH [OF this] show ?thesis using True by (simp add: plotted_def)
  next
    case False
    from Cons.prems False obtain ds x y c where
      ds: "comprehension nt_divergence (heavies l) = Inr ds" and
      x: "py_min ds = Inr x" and y: "py_max ds = Inr y" and
      c: "first_subject_color (heavies l) = Inr c" and
      rest: "bubble_loop ls (xs0 @ [x], ys0 @ [y], cs0 @ [c],
               as0 @ [45 * length (heavies l)]) = Inr out"
      by (auto split: sum.splits)
    let ?b = "(x, y, c, 45 * length (heavies l))"
    from Cons.IH [OF rest] obtain pts where
      pts: "list_all2 bubble_of (plotted ls) pts" and
      out: "out = ((xs0 @ [x]) @ map fst pts, (ys0 @ [y]) @ map (fst \<circ> snd) pts,
            (cs0 @ [c]) @ map (fst \<circ> snd \<circ> snd) pts,
            (as0 @ [45 * length (heavies l)]) @ map (snd \<circ> snd \<circ> snd) pts)"
      by blast
    from x have "ds \<noteq> []" by (simp add: py_min_Inr)
    with ds have "heavies l \<noteq> []" by auto
    with False have len: "1 < length (heavies l)"
      by (cases "heavies l") auto
    have "bubble_of l ?b"
      using ds x y c len by (simp add: bubble_of_def py_min_Inr py_max_Inr)
    with pts have "list_all2 bubble_of (plotted (l # ls)) (?b # pts)"
      using False by (simp add: plotted_def)
    moreover have "out = (xs0 @ map fst (?b # pts), ys0 @ map (fst \<circ> snd) (?b # pts),
        cs0 @ map (fst \<circ> snd \<circ> snd) (?b # pts), as0 @ map (snd \<circ> snd \<circ> snd) (?b # pts))"
      using out by simp
    ultimately show ?thesis by blast
  qed
qed

lemma bubble_loop_returns:
  "(\<forall>l\<in>set ls. length (heavies l) \<noteq> 1 \<longrightarrow>
      heavies l \<noteq> [] \<and> (\<forall>p\<in>set (heavies l). \<not> isl (nt_divergence p)) \<and>
      color_dict (subject (hd (heavies l))) \<noteq> None) \<Longrightarrow>
   \<not> isl (bubble_loop ls acc)"
proof (induction ls arbitrary: acc)
  case Nil
  then show ?case by simp
next
  case (Cons l ls)
  obtain xs ys cs areas where acc: "acc = (xs, ys, cs, areas)"
    by (cases acc) auto
  have rest: "\<And>acc'. \<not> isl (bubble_loop ls acc')"
    using Cons.IH Cons.prems by simp
  show ?case
  proof (cases "length (heavies l) = 1")
    case True
    then show ?thesis using rest by (simp add: acc)
  next
    case False
    with Cons.prems have ne: "heavies l \<noteq> []"
      and ok: "\<forall>p\<in>set (heavies l). \<not> isl (nt_divergence p)"
      and col: "color_dict (subject (hd (heavies l))) \<noteq> None"
      by auto
    from comprehension_returns [OF ok] obtain ds where
      ds: "comprehension nt_divergence (heavies l) = Inr ds" by blast
    with ne have "ds \<noteq> []" using comprehension_length [OF ds] by auto
    then obtain x y where "py_min ds = Inr x" "py_max ds = Inr y"
      by (simp add: py_min_Inr py_max_Inr)
    moreover from ne col obtain c where "first_subject_color (heavies l) = Inr c"
      by (cases "heavies l") (auto simp: first_subject_color_def color_dict_getitem_def)
    ultimately show ?thesis using False ds rest by (simp add: acc)
  qed
qed

lemma ex_lineages_run:
  "mutation_bubbleplot ex_lineages =
     Inr ([3, 1], [15 / 2, 10], [''#004E64'', ''#3AAED8''], [90, 135])"
  by (simp add: mutation_bubbleplot_def ex_lineages_def ex_pair_def ex_seq_def nt_divergence_def
      Sequence_getitem_def py_min_def py_max_def first_subject_color_def color_dict_getitem_def
      color_dict_def donors_def colors_def)

text \<open>
  C6: in the bubbleplot aggregation the lineages with exactly one heavy Pair are left out,
  and every other lineage contributes, in the order of the input, the minimum and the
  maximum of 100 minus the heavy chain's percent nucleotide identity over its heavy Pairs,
  and the marker area 45 times the number of its heavy Pairs. The aggregation returns
  whenever every lineage that is not left out has a heavy Pair, a numeric identity on each
  of its heavy Pairs and a known donor on the first; and when it returns, every lineage it
  plotted has more than one heavy Pair.
\<close>

theorem mutation_bubbleplot_ranges:
  "((\<forall>l\<in>set ls. length (heavies l) \<noteq> 1 \<longrightarrow>
       heavies l \<noteq> [] \<and> (\<forall>p\<in>set (heavies l). \<not> isl (nt_divergence p)) \<and>
       color_dict (subject (hd (heavies l))) \<noteq> None) \<longrightarrow>
    \<not> isl (mutation_bubbleplot ls)) \<and>
   (mutation_bubbleplot ls = Inr (xs, ys, cs, areas) \<longrightarrow>
    length xs = length (plotted ls) \<and> length ys = length (plotted ls) \<and>
    length cs = length (plotted ls) \<and> length areas = length (plotted ls) \<and>
    (\<forall>i<length (plotted ls).
       1 < length (heavies (plotted ls ! i)) \<and>
       (\<exists>ds. map nt_divergence (heavies (plotted ls ! i)) = map Inr ds \<and>
             xs ! i = Min (set ds) \<and> ys ! i = Max (set ds)) \<and>
       areas ! i = 45 * length (heavies (plotted ls ! i))))"
proof (intro conjI impI)
  assume "\<forall>l\<in>set ls. length (heavies l) \<noteq> 1 \<longrightarrow>
       heavies l \<noteq> [] \<and> (\<forall>p\<in>set (heavies l). \<not> isl (nt_divergence p)) \<and>
       color_dict (subject (hd (heavies l))) \<noteq> None"
  then show "\<not> isl (mutation_bubbleplot ls)"
    unfolding mutation_bubbleplot_def by (rule bubble_loop_returns)
next
  assume "mutation_bubbleplot ls = Inr (xs, ys, cs, areas)"
  then have "bubble_loop ls ([], [], [], []) = Inr (xs, ys, cs, areas)"
    by (simp add: mutation_bubbleplot_def)
  from bubble_loop_out [OF this] obtain pts where
    pts: "list_all2 bubble_of (plotted ls) pts" and
    xs: "xs = map fst pts" and ys: "ys = map (fst \<circ> snd) pts" and
    cs: "cs = map (fst \<circ> snd \<circ> snd) pts" and
    areas: "areas = map (snd \<circ> snd \<circ> snd) pts"
    by auto
  from pts have len: "length pts = length (plotted ls)"
    by (simp add: list_all2_lengthD)
  show "length xs = length (plotted ls)" "length ys = length (plotted ls)"
    "length cs = length (plotted ls)" "length areas = length (plotted ls)"
    by (simp_all add: xs ys cs areas len)
  show "\<forall>i<length (plotted ls).
       1 < length (heavies (plotted ls ! i)) \<and>
       (\<exists>ds. map nt_divergence (heavies (plotted ls ! i)) = map Inr ds \<and>
             xs ! i = Min (set ds) \<and> ys ! i = Max (set ds)) \<and>
       areas ! i = 45 * length (heavies (plotted ls ! i))"
  proof (intro allI impI)
    fix i assume i: "i < length (plotted ls)"
    with pts have b: "bubble_of (plotted ls ! i) (pts ! i)"
      by (simp add: list_all2_nthD)
    obtain x y c a where p: "pts ! i = (x, y, c, a)"
      by (cases "pts ! i") auto
    from i len have nth: "xs ! i = x" "ys ! i = y" "areas ! i = a"
      by (simp_all add: xs ys areas p)
    from b p obtain ds where
      "comprehension nt_divergence (heavies (plotted ls ! i)) = Inr ds"
      "x = Min (set ds)" "y = Max (set ds)"
      by (auto simp: bubble_of_def split: sum.splits)
    then have "\<exists>ds. map nt_divergence (heavies (plotted ls ! i)) = map Inr ds \<and>
             xs ! i = Min (set ds) \<and> ys ! i = Max (set ds)"
      using nth comprehension_Inr_map by blast
    moreover from b p have "1 < length (heavies (plotted ls ! i))"
      "a = 45 * length (heavies (plotted ls ! i))"
      by (simp_all add: bubble_of_def)
    ultimately show "1 < length (heavies (plotted ls ! i)) \<and>
       (\<exists>ds. map nt_divergence (heavies (plotted ls ! i)) = map Inr ds \<and>
             xs ! i = Min (set ds) \<and> ys ! i = Max (set ds)) \<and>
       areas ! i = 45 * length (heavies (plotted ls ! i))"
      using nth by simp
  qed
qed

text \<open>
  Three lineages with two, one and three heavy Pairs: the second is left out, the first
  gives the range 3 to 7.5 with area 90, the third the range 1 to 10 with area 135.
\<close>

theorem mutation_bubbleplot_ranges_witness:
  "mutation_bubbleplot ex_lineages =
     Inr ([3, 1], [15 / 2, 10], [''#004E64'', ''#3AAED8''], [90, 135]) \<and>
   plotted ex_lineages = [ex_lineages ! 0, ex_lineages ! 2] \<and>
   \<not> isl (mutation_bubbleplot ex_lineages) \<and>
   (\<exists>ds. map nt_divergence (heavies (ex_lineages ! 0)) = map Inr ds \<and>
      3 = Min (set ds) \<and> 15 / 2 = Max (set ds)) \<and>
   (\<exists>ds. map nt_divergence (heavies (ex_lineages ! 2)) = map Inr ds \<and>
      1 = Min (set ds) \<and> 10 = Max (set ds))"
proof -
  have hyp: "\<forall>l\<in>set ex_lineages. length (heavies l) \<noteq> 1 \<longrightarrow>
       heavies l \<noteq> [] \<and> (\<forall>p\<in>set (heavies l). \<not> isl (nt_divergence p)) \<and>
       color_dict (subject (hd (heavies l))) \<noteq> None"
    by (simp add: ex_lineages_def ex_pair_def ex_seq_def nt_divergence_def
        Sequence_getitem_def color_dict_def donors_def colors_def)
  have pl: "plotted ex_lineages = [ex_lineages ! 0, ex_lineages ! 2]"
    by (simp add: plotted_def ex_lineages_def)
  note inst = mutation_bubbleplot_ranges
      [of ex_lineages "[3, 1]" "[15 / 2, 10]" "[''#004E64'', ''#3AAED8'']" "[90, 135]"]
  from inst hyp have ret: "\<not> isl (mutation_bubbleplot ex_lineages)" by blast
  from inst ex_lineages_run have each: "\<forall>i<length (plotted ex_lineages).
       1 < length (heavies (plotted ex_lineages ! i)) \<and>
       (\<exists>ds. map nt_divergence (heavies (plotted ex_lineages ! i)) = map Inr ds \<and>
             [3, 1] ! i = Min (set ds) \<and> [15 / 2, 10] ! i = Max (set ds)) \<and>
       [90, 135] ! i = 45 * length (heavies (plotted ex_lineages ! i))"
    by blast
  from each [THEN spec, of 0] each [THEN spec, of 1]
  have "(\<exists>ds. map nt_divergence (heavies (ex_lineages ! 0)) = map Inr ds \<and>
      3 = Min (set ds) \<and> 15 / 2 = Max (set ds)) \<and>
   (\<exists>ds. map nt_divergence (heavies (ex_lineages ! 2)) = map Inr ds \<and>
      1 = Min (set ds) \<and> 10 = Max (set ds))"
    by (simp add: pl)
  with ex_lineages_run pl ret show ?thesis by simp
qed

text \<open>
  C9: a lineage with no heavy Pair is not skipped, the skip is for exactly one heavy Pair:
  wherever such a lineage stands in the input the aggregation raises, and where it comes
  first the exception is the ValueError of \<^verbatim>\<open>min\<close> on an empty list.
\<close>

theorem bubbleplot_fails_without_heavies:
  "(l \<in> set ls \<and> heavies l = [] \<longrightarrow> isl (mutation_bubbleplot ls)) \<and>
   (heavies l = [] \<longrightarrow> mutation_bubbleplot (l # ls) = Inl ValueError) \<and>
   (length (heavies l) = 1 \<longrightarrow> mutation_bubbleplot (l # ls) = mutation_bubbleplot ls)"
  using bubble_loop_fails [of l ls "([], [], [], [])"]
  by (simp add: mutation_bubbleplot_def py_min_def)

text \<open>The three example lineages are aggregated; with an empty lineage before or after
  them the aggregation raises.\<close>

theorem bubbleplot_fails_without_heavies_witness:
  "\<lparr>heavies = []\<rparr> \<in> set (ex_lineages @ [\<lparr>heavies = []\<rparr>]) \<and>
   isl (mutation_bubbleplot (ex_lineages @ [\<lparr>heavies = []\<rparr>])) \<and>
   mutation_bubbleplot (\<lparr>heavies = []\<rparr> # ex_lineages) = Inl ValueError \<and>
   \<not> isl (mutation_bubbleplot ex_lineages)"
proof -
  have "\<not> isl (mutation_bubbleplot ex_lineages)" by (simp add: ex_lineages_run)
  then show ?thesis
    using bubbleplot_fails_without_heavies
        [of "\<lparr>heavies = []\<rparr>" "ex_lineages @ [\<lparr>heavies = []\<rparr>]"]
      bubbleplot_fails_without_heavies [of "\<lparr>heavies = []\<rparr>" ex_lineages]
    by simp
qed

section \<open>The truncation of names\<close>

lemma str_split_hd: "hd (str_split c s) = takeWhile (\<lambda>x. x \<noteq> c) s \<and> str_split c s \<noteq> []"
  by (induction s) (auto split: list.splits)

lemma truncate_name_simps:
  "sequence (truncate_name s) = sequence s"
  "id_seq (truncate_name s) = takeWhile (\<lambda>x. x \<noteq> CHR ''_'') (id_seq s)"
  "map_of (annotations (truncate_name s)) =
     (map_of (annotations s))(''seq_id'' \<mapsto> Str (takeWhile (\<lambda>x. x \<noteq> CHR ''_'') (id_seq s)))"
  by (simp_all add: truncate_name_def Sequence_setitem_def str_split_hd update_conv')

lemma truncate_names_length: "length (truncate_names refs store) = length store"
  by (induction refs arbitrary: store) auto

lemma truncate_names_frame:
  "j < length store \<Longrightarrow>
   sequence (truncate_names refs store ! j) = sequence (store ! j) \<and>
   (\<forall>k. k \<noteq> ''seq_id'' \<longrightarrow>
      map_of (annotations (truncate_names refs store ! j)) k = map_of (annotations (store ! j)) k) \<and>
   (j \<notin> set refs \<longrightarrow> truncate_names refs store ! j = store ! j) \<and>
   (j \<in> set refs \<longrightarrow>
      id_seq (truncate_names refs store ! j) = takeWhile (\<lambda>c. c \<noteq> CHR ''_'') (id_seq (store ! j)) \<and>
      map_of (annotations (truncate_names refs store ! j)) ''seq_id'' =
        Some (Str (id_seq (truncate_names refs store ! j))))"
proof (induction refs arbitrary: store)
  case Nil
  then show ?case by simp
next
  case (Cons r refs)
  let ?st = "store[r := truncate_name (store ! r)]"
  from Cons.prems have j: "j < length ?st" by simp
  note IH = Cons.IH [OF j]
  show ?case
  proof (cases "j = r")
    case True
    with Cons.prems have mid: "?st ! r = truncate_name (store ! r)" by simp
    show ?thesis using IH unfolding True
      by (cases "r \<in> set refs") (simp_all add: mid truncate_name_simps)
  next
    case False
    then have mid: "?st ! j = store ! j" by simp
    show ?thesis using IH False by (simp add: mid)
  qed
qed

text \<open>
  The frame of the truncation loop: the store keeps its length, every record keeps its
  sequence string and every annotation other than \<^verbatim>\<open>seq_id\<close>, a record the loop was not
  given is unchanged altogether, and a record it was given has as its name the text before
  the first underscore of its old name, mirrored in \<^verbatim>\<open>seq_id\<close>. This is a statement about
  the loop alone. What the calls into abutils and abstar (\<^verbatim>\<open>abstar.run\<close>,
  \<^verbatim>\<open>assign_pairs\<close>, \<^verbatim>\<open>cluster\<close>, \<^verbatim>\<open>dot_alignment\<close>, \<^verbatim>\<open>group_lineages\<close>) do to the
  records they are handed is not in the sources, so that no other operation changes a
  loaded record is neither proved nor refuted here.
\<close>

lemma truncation_frame:
  "length (truncate_names refs store) = length store \<and>
   (\<forall>j<length store.
      sequence (truncate_names refs store ! j) = sequence (store ! j) \<and>
      (\<forall>k. k \<noteq> ''seq_id'' \<longrightarrow>
         map_of (annotations (truncate_names refs store ! j)) k =
         map_of (annotations (store ! j)) k) \<and>
      (j \<notin> set refs \<longrightarrow> truncate_names refs store ! j = store ! j) \<and>
      (j \<in> set refs \<longrightarrow>
         id_seq (truncate_names refs store ! j) =
           takeWhile (\<lambda>c. c \<noteq> CHR ''_'') (id_seq (store ! j)) \<and>
         map_of (annotations (truncate_names refs store ! j)) ''seq_id'' =
           Some (Str (id_seq (truncate_names refs store ! j)))))"
  using truncate_names_frame [of _ store refs] by (simp add: truncate_names_length)

text \<open>Three loaded records, the first and the third given to the loop.\<close>

lemma truncation_frame_example:
  "(0::nat) < length ex_store \<and> 0 \<in> set [0, 2::nat] \<and> 1 < length ex_store \<and> 1 \<notin> set [0, 2::nat] \<and>
   truncate_names [0, 2] ex_store ! 1 = ex_store ! 1 \<and>
   sequence (truncate_names [0, 2] ex_store ! 0) = ''CAGGTGCAG'' \<and>
   id_seq (truncate_names [0, 2] ex_store ! 0) = ''PCT64-18B'' \<and>
   map_of (annotations (truncate_names [0, 2] ex_store ! 0)) ''seq_id'' = Some (Str ''PCT64-18B'') \<and>
   map_of (annotations (truncate_names [0, 2] ex_store ! 0)) ''chain'' = Some (Str ''heavy'')"
proof -
  have len: "length ex_store = 3" by (simp add: ex_store_def)
  have old: "ex_store ! 0 =
      \<lparr>id_seq = ''PCT64-18B_heavy_1'', sequence = ''CAGGTGCAG'',
       annotations = [(''seq_id'', Str ''PCT64-18B_heavy_1''), (''chain'', Str ''heavy'')]\<rparr>"
    by (simp add: ex_store_def)
  note frame = truncation_frame [of "[0, 2]" ex_store, THEN conjunct2, THEN spec, THEN mp]
  have "truncate_names [0, 2] ex_store ! 1 = ex_store ! 1"
    using frame [of 1] by (simp add: len)
  moreover have
    "sequence (truncate_names [0, 2] ex_store ! 0) = sequence (ex_store ! 0) \<and>
     map_of (annotations (truncate_names [0, 2] ex_store ! 0)) ''chain'' =
       map_of (annotations (ex_store ! 0)) ''chain'' \<and>
     id_seq (truncate_names [0, 2] ex_store ! 0) =
       takeWhile (\<lambda>c. c \<noteq> CHR ''_'') (id_seq (ex_store ! 0)) \<and>
     map_of (annotations (truncate_names [0, 2] ex_store ! 0)) ''seq_id'' =
       Some (Str (id_seq (truncate_names [0, 2] ex_store ! 0)))"
    using frame [of 0] by (simp add: len)
  ultimately show ?thesis by (simp add: len old)
qed


section \<open>The Pair Assigner partitions its input\<close>











section \<open>The Cluster Engine partitions its input\<close>

lemma greedy_mset:
  "mset (concat (map cluster_members (greedy_clusters sim t xs))) = mset xs"
proof (induction sim t xs rule: greedy_clusters.induct)
  case (1 sim t)
  then show ?case by simp
next
  case (2 sim t c rest)
  have "mset (filter (\<lambda>r. t < sim c r) rest) + mset (filter (\<lambda>r. \<not> t < sim c r) rest) = mset rest"
    by (induction rest) auto
  with 2 show ?case by simp
qed

lemma greedy_members:
  "c \<in> set (greedy_clusters sim t xs) \<Longrightarrow>
   \<exists>ms. cluster_members c = centroid c # ms \<and> (\<forall>m\<in>set ms. t < sim (centroid c) m)"
  by (induction sim t xs rule: greedy_clusters.induct) auto

lemma largest_from_props:
  "largest_from best cs \<in> set (best # cs) \<and>
   cluster_size best \<le> cluster_size (largest_from best cs) \<and>
   (\<forall>c\<in>set cs. cluster_size c \<le> cluster_size (largest_from best cs))"
proof (induction cs arbitrary: best)
  case Nil
  then show ?case by simp
next
  case (Cons c cs)
  let ?b = "if cluster_size best < cluster_size c then c else best"
  from Cons [of ?b] show ?case by (auto split: if_splits)
qed

lemma largest_from_first:
  "\<exists>i<length (best # cs). (best # cs) ! i = largest_from best cs \<and>
     (\<forall>j<i. cluster_size ((best # cs) ! j) < cluster_size (largest_from best cs))"
proof (induction cs arbitrary: best)
  case Nil
  then show ?case by simp
next
  case (Cons c cs)
  show ?case
  proof (cases "cluster_size best < cluster_size c")
    case True
    from Cons [of c] obtain i where i: "i < length (c # cs)"
      "(c # cs) ! i = largest_from c cs"
      "\<forall>j<i. cluster_size ((c # cs) ! j) < cluster_size (largest_from c cs)"
      by blast
    have le: "cluster_size c \<le> cluster_size (largest_from c cs)"
      using largest_from_props [of c cs] by simp
    have "\<forall>j<Suc i. cluster_size ((best # c # cs) ! j) < cluster_size (largest_from c cs)"
    proof (intro allI impI)
      fix j assume "j < Suc i"
      then show "cluster_size ((best # c # cs) ! j) < cluster_size (largest_from c cs)"
        using i(3) True le by (cases j) auto
    qed
    with i(1,2) True show ?thesis
      by (intro exI [of _ "Suc i"]) simp
  next
    case False
    from Cons [of best] obtain i where i: "i < length (best # cs)"
      "(best # cs) ! i = largest_from best cs"
      "\<forall>j<i. cluster_size ((best # cs) ! j) < cluster_size (largest_from best cs)"
      by blast
    show ?thesis
    proof (cases i)
      case 0
      with i False show ?thesis by (intro exI [of _ 0]) simp
    next
      case (Suc k)
      from i(3) Suc have b: "cluster_size best < cluster_size (largest_from best cs)"
        by auto
      have "\<forall>j<Suc i. cluster_size ((best # c # cs) ! j) < cluster_size (largest_from best cs)"
      proof (intro allI impI)
        fix j assume j: "j < Suc i"
        show "cluster_size ((best # c # cs) ! j) < cluster_size (largest_from best cs)"
        proof (cases j)
          case 0
          with b show ?thesis by simp
        next
          case (Suc j')
          show ?thesis
          proof (cases j')
            case 0
            with Suc b False show ?thesis by simp
          next
            case (Suc j'')
            with \<open>j = Suc j'\<close> j have "j' < i" by simp
            with i(3) have "cluster_size ((best # cs) ! j') < cluster_size (largest_from best cs)"
              by blast
            with Suc \<open>j = Suc j'\<close> show ?thesis by simp
          qed
        qed
      qed
      with i(1,2) Suc False show ?thesis
        by (intro exI [of _ "Suc i"]) simp
    qed
  qed
qed

lemma distinct_concat_unique:
  "distinct (concat xss) \<Longrightarrow> i < length xss \<Longrightarrow> j < length xss \<Longrightarrow>
   x \<in> set (xss ! i) \<Longrightarrow> x \<in> set (xss ! j) \<Longrightarrow> i = j"
proof (induction xss arbitrary: i j)
  case Nil
  then show ?case by simp
next
  case (Cons xs xss)
  from Cons.prems(1) have d: "distinct (concat xss)"
    and disj: "\<And>ys. ys \<in> set xss \<Longrightarrow> set xs \<inter> set ys = {}"
    by auto
  show ?case
  proof (cases i)
    case 0
    show ?thesis
    proof (cases j)
      case 0
      with \<open>i = 0\<close> show ?thesis by simp
    next
      case (Suc j')
      with Cons.prems have "xss ! j' \<in> set xss" "x \<in> set (xss ! j')" by simp_all
      with disj [of "xss ! j'"] Cons.prems(4) \<open>i = 0\<close> show ?thesis by auto
    qed
  next
    case (Suc i')
    show ?thesis
    proof (cases j)
      case 0
      from Suc Cons.prems have "xss ! i' \<in> set xss" "x \<in> set (xss ! i')" by simp_all
      with disj [of "xss ! i'"] Cons.prems(5) \<open>j = 0\<close> show ?thesis by auto
    next
      case (Suc j')
      with \<open>i = Suc i'\<close> Cons.prems Cons.IH [OF d, of i' j'] show ?thesis by simp
    qed
  qed
qed

lemma largest_cluster_first:
  assumes "largest_cluster cs = Some c"
  shows "c \<in> set cs \<and> (\<forall>c'\<in>set cs. cluster_size c' \<le> cluster_size c) \<and>
    (\<exists>i<length cs. cs ! i = c \<and> (\<forall>j<i. cluster_size (cs ! j) < cluster_size c))"
proof (cases cs)
  case Nil
  with assms show ?thesis by (simp add: largest_cluster_def)
next
  case (Cons b rest)
  with assms have c: "c = largest_from b rest" by (simp add: largest_cluster_def)
  from largest_from_props [of b rest] largest_from_first [of b rest]
  show ?thesis unfolding c Cons by auto
qed

lemma ex_reads_clusters:
  "cluster ex_reads 0.85 (\<lambda>s. - int (length s)) positional_identity =
     [\<lparr>centroid = ''CAGGTGCAGCTG'', cluster_members = [''CAGGTGCAGCTG'', ''CAGGTGCAGCTC'']\<rparr>,
      \<lparr>centroid = ''GACATCCAGA'', cluster_members = [''GACATCCAGA'', ''GACATCCAGT'']\<rparr>]"
  by (simp add: cluster_def ex_reads_def positional_identity_def)

text \<open>
  C5: for every collection of records, every threshold (those of (0,1] among them), every
  sort key and every similarity, the clusters of the Cluster Engine partition the input:
  their members together are the records of the input, each as often as it occurs
  there, and when the records are distinct the clusters are disjoint and every record is
  in exactly one of them. A cluster is its centroid followed by records whose similarity
  to the centroid is at least the threshold. The largest cluster exists when the input is
  not empty, has the maximum size, and is the first cluster of that size.
\<close>

theorem cluster_partition:
  "mset (concat (map cluster_members (cluster seqs t key sim))) = mset seqs \<and>
   (distinct seqs \<longrightarrow>
      distinct (concat (map cluster_members (cluster seqs t key sim))) \<and>
      (\<forall>r\<in>set seqs. \<exists>!i. i < length (cluster seqs t key sim) \<and>
          r \<in> set (cluster_members (cluster seqs t key sim ! i)))) \<and>
   (\<forall>c\<in>set (cluster seqs t key sim).
      \<exists>ms. cluster_members c = centroid c # ms \<and> (\<forall>m\<in>set ms. t \<le> sim (centroid c) m)) \<and>
   (seqs \<noteq> [] \<longrightarrow> largest_cluster (cluster seqs t key sim) \<noteq> None) \<and>
   (largest_cluster (cluster seqs t key sim) = Some c \<longrightarrow>
      c \<in> set (cluster seqs t key sim) \<and>
      (\<forall>c'\<in>set (cluster seqs t key sim). cluster_size c' \<le> cluster_size c) \<and>
      (\<exists>i<length (cluster seqs t key sim). cluster seqs t key sim ! i = c \<and>
         (\<forall>j<i. cluster_size (cluster seqs t key sim ! j) < cluster_size c)))"
proof -
  let ?cs = "cluster seqs t key sim"
  have m: "mset (concat (map cluster_members ?cs)) = mset seqs"
    by (simp add: cluster_def greedy_mset)
  have part: "distinct (concat (map cluster_members ?cs)) \<and>
      (\<forall>r\<in>set seqs. \<exists>!i. i < length ?cs \<and> r \<in> set (cluster_members (?cs ! i)))"
    if dist: "distinct seqs"
  proof
    from mset_eq_imp_distinct_iff [OF m] dist
    show d: "distinct (concat (map cluster_members ?cs))" by simp
    show "\<forall>r\<in>set seqs. \<exists>!i. i < length ?cs \<and> r \<in> set (cluster_members (?cs ! i))"
    proof
      fix r assume "r \<in> set seqs"
      with m have "r \<in> set (concat (map cluster_members ?cs))"
        by (metis set_mset_mset)
      then obtain c where "c \<in> set ?cs" "r \<in> set (cluster_members c)" by auto
      then obtain i where i: "i < length ?cs" "r \<in> set (cluster_members (?cs ! i))"
        by (auto simp: in_set_conv_nth)
      have "j = i" if "j < length ?cs" "r \<in> set (cluster_members (?cs ! j))" for j
        using distinct_concat_unique [OF d, of j i r] that i by simp
      with i show "\<exists>!i. i < length ?cs \<and> r \<in> set (cluster_members (?cs ! i))" by blast
    qed
  qed
  have sim: "\<exists>ms. cluster_members c = centroid c # ms \<and> (\<forall>m\<in>set ms. t \<le> sim (centroid c) m)"
    if "c \<in> set ?cs" for c
  proof -
    from that greedy_members [of c sim t "sort_key key seqs"] obtain ms where
      "cluster_members c = centroid c # ms" "\<forall>m\<in>set ms. t < sim (centroid c) m"
      by (auto simp: cluster_def)
    then show ?thesis by (intro exI [of _ ms]) (simp add: less_imp_le)
  qed
  have ne: "largest_cluster ?cs \<noteq> None" if "seqs \<noteq> []"
  proof -
    from that m have "?cs \<noteq> []" by auto
    then show ?thesis by (cases ?cs) (simp_all add: largest_cluster_def)
  qed
  from m part sim ne largest_cluster_first [of ?cs c] show ?thesis by blast
qed

text \<open>Four reads, two of twelve and two of ten nucleotides, at threshold 0.85: two clusters
  of two reads each, and the largest cluster is the first of them.\<close>

theorem cluster_partition_witness:
  "distinct ex_reads \<and> ex_reads \<noteq> [] \<and>
   cluster ex_reads 0.85 (\<lambda>s. - int (length s)) positional_identity =
     [\<lparr>centroid = ''CAGGTGCAGCTG'', cluster_members = [''CAGGTGCAGCTG'', ''CAGGTGCAGCTC'']\<rparr>,
      \<lparr>centroid = ''GACATCCAGA'', cluster_members = [''GACATCCAGA'', ''GACATCCAGT'']\<rparr>] \<and>
   distinct (concat (map cluster_members
     (cluster ex_reads 0.85 (\<lambda>s. - int (length s)) positional_identity))) \<and>
   (\<exists>!i. i < length (cluster ex_reads 0.85 (\<lambda>s. - int (length s)) positional_identity) \<and>
      ''GACATCCAGT'' \<in> set (cluster_members
        (cluster ex_reads 0.85 (\<lambda>s. - int (length s)) positional_identity ! i))) \<and>
   largest_cluster (cluster ex_reads 0.85 (\<lambda>s. - int (length s)) positional_identity) =
     Some \<lparr>centroid = ''CAGGTGCAGCTG'', cluster_members = [''CAGGTGCAGCTG'', ''CAGGTGCAGCTC'']\<rparr> \<and>
   \<lparr>centroid = ''CAGGTGCAGCTG'', cluster_members = [''CAGGTGCAGCTG'', ''CAGGTGCAGCTC'']\<rparr>
     \<in> set (cluster ex_reads 0.85 (\<lambda>s. - int (length s)) positional_identity)"
proof -
  let ?cs = "cluster ex_reads 0.85 (\<lambda>s. - int (length s)) positional_identity"
  let ?c = "\<lparr>centroid = ''CAGGTGCAGCTG'', cluster_members = [''CAGGTGCAGCTG'', ''CAGGTGCAGCTC'']\<rparr>"
  have d: "distinct ex_reads" and ne: "ex_reads \<noteq> []" and
    r: "''GACATCCAGT'' \<in> set ex_reads"
    by (simp_all add: ex_reads_def)
  have l: "largest_cluster ?cs = Some ?c"
    unfolding ex_reads_clusters by (simp add: largest_cluster_def cluster_size_def)
  note inst = cluster_partition
    [of ex_reads "0.85" "\<lambda>s. - int (length s)" positional_identity ?c]
  from inst d have "distinct (concat (map cluster_members ?cs))" by blast
  moreover from inst d r have "\<exists>!i. i < length ?cs \<and>
      ''GACATCCAGT'' \<in> set (cluster_members (?cs ! i))"
    by blast
  moreover from inst l have "?c \<in> set ?cs" by blast
  ultimately show ?thesis using d ne l ex_reads_clusters by blast
qed


end
